theory Spec2Isabelle
  imports Main "HOL-Library.Word" "HOL-Library.Multiset"
begin

unbundle bit_operations_syntax

section \<open>A shallow embedding of amd\_gpu\_top (source/main.cpp)\<close>

subsection \<open>C++ integer arithmetic and counted loops\<close>

type_synonym u32 = "32 word"

text \<open>
  The operators \<open>/\<close> and \<open>%\<close> of C++ on \<open>int\<close> truncate towards zero, whereas
  \<open>div\<close> and \<open>mod\<close> of HOL round towards minus infinity.  The divisors of the
  program are the non-zero constants 8, 100 and 1000.  The \<open>int\<close> values of the program
  are modelled by \<open>int\<close>: the counts stay within 0 and 100 (proved below as C7), so that
  \<open>counts[a] * 100\<close>, \<open>percentage * 2\<close> and \<open>(i + 1) * interval\<close> are far from the
  bounds of a 32-bit \<open>int\<close>.
\<close>

definition cdiv :: "int \<Rightarrow> int \<Rightarrow> int" where
  "cdiv a b = sgn a * sgn b * (\<bar>a\<bar> div \<bar>b\<bar>)"

definition cmod :: "int \<Rightarrow> int \<Rightarrow> int" where
  "cmod a b = a - b * cdiv a b"

text \<open>
  \<open>for (i = a; i < n; ++i) body\<close>: the loop variable is an \<open>int\<close> (or a
  \<open>std::size_t\<close> starting from 0), the body transforms the state.
\<close>

function for_loop :: "int \<Rightarrow> int \<Rightarrow> (int \<Rightarrow> 's \<Rightarrow> 's) \<Rightarrow> 's \<Rightarrow> 's" where
  "for_loop i n body s = (if i < n then for_loop (i + 1) n body (body i s) else s)"
  by pat_completeness auto
termination
  by (relation "measure (\<lambda>(i, n, body, s). nat (n - i))") auto

declare for_loop.simps [simp del]

subsection \<open>The counter table\<close>

record Counter =
  name :: string
  index :: u32
  mask :: u32
  isIdle :: bool

definition counters :: "Counter list" where
  "counters =
    [ \<lparr>name = ''CL'', index = 0x2284, mask = push_bit 31 1, isIdle = False\<rparr>,
      \<lparr>name = ''SU'', index = 0x2294, mask = push_bit 31 1, isIdle = False\<rparr>,
      \<lparr>name = ''GDS'', index = 0x25c1, mask = push_bit 0 1, isIdle = False\<rparr>,
      \<lparr>name = ''IA'', index = 0x2237, mask = push_bit 0 1, isIdle = False\<rparr>,
      \<lparr>name = ''WD'', index = 0x223f, mask = push_bit 0 1, isIdle = False\<rparr>,
      \<lparr>name = ''VGT'', index = 0x223c, mask = push_bit 0 1, isIdle = False\<rparr>,
      \<lparr>name = ''TD'', index = 0x2526, mask = push_bit 31 1, isIdle = False\<rparr>,
      \<lparr>name = ''CP'', index = 0x21a0, mask = push_bit 31 1, isIdle = False\<rparr>,
      \<lparr>name = ''SDMA0'', index = 0x340d, mask = push_bit 0 1, isIdle = True\<rparr>,
      \<lparr>name = ''SDMA1'', index = 0x360d, mask = push_bit 0 1, isIdle = True\<rparr> ]"

subsection \<open>Register reads\<close>

text \<open>
  \<open>main\<close> maps \<open>0x40000\<close> bytes of region 5.  \<open>readReg\<close> indexes the mapping as an
  array of 32-bit words and checks nothing; a read that is not wholly inside the mapping
  is undefined behaviour, which the model makes visible as \<open>None\<close>.  The mapping is
  volatile: every read sees the register file of its own moment, a function from word
  index to value.
\<close>

definition mapSize :: nat where
  "mapSize = 0x40000"

type_synonym regs = "u32 \<Rightarrow> u32"

definition readReg :: "regs \<Rightarrow> u32 \<Rightarrow> u32 option" where
  "readReg mmioAddress idx =
     (if 4 * unat idx + 4 \<le> mapSize then Some (mmioAddress idx) else None)"

subsection \<open>One sample tick\<close>

text \<open>
  The body of the inner loop of \<open>main\<close> for counter \<open>i\<close>: one raw read in either
  branch, and \<open>++counts[i]\<close> according to the polarity.  An index outside
  \<open>counters\<close> or \<open>counts\<close> is undefined behaviour (\<open>None\<close>).
\<close>

definition sampleCounter :: "regs \<Rightarrow> nat \<Rightarrow> int list \<Rightarrow> int list option" where
  "sampleCounter mmioAddress i counts =
     (if \<not> (i < length counters \<and> i < length counts) then None
      else if isIdle (counters ! i) then
        (case readReg mmioAddress (index (counters ! i)) of
           None \<Rightarrow> None
         | Some v \<Rightarrow>
             if \<not> (v AND mask (counters ! i) \<noteq> 0) then Some (counts[i := counts ! i + 1])
             else Some counts)
      else
        (case readReg mmioAddress (index (counters ! i)) of
           None \<Rightarrow> None
         | Some v \<Rightarrow>
             if v AND mask (counters ! i) \<noteq> 0 then Some (counts[i := counts ! i + 1])
             else Some counts))"

text \<open>
  The inner loop over all counters; \<open>mmio i\<close> is the register file at the moment of
  the read for counter \<open>i\<close>.
\<close>

definition sampleCounters :: "(nat \<Rightarrow> regs) \<Rightarrow> int list \<Rightarrow> int list option" where
  "sampleCounters mmio counts =
     for_loop 0 (int (length counts))
       (\<lambda>i st. Option.bind st (sampleCounter (mmio (nat i)) (nat i)))
       (Some counts)"

subsection \<open>Pacing\<close>

text \<open>
  \<open>std::chrono::steady_clock\<close> counts nanoseconds; a time point is modelled by its
  count.  \<open>duration_cast<microseconds>\<close> divides by 1000 and truncates.  The sleep
  length is computed in the signed 64-bit representation of \<open>microseconds\<close>; the
  clock is monotonic, so the elapsed time is not negative and the subtraction cannot
  overflow.  \<open>usleep\<close> takes a \<open>useconds_t\<close>, an unsigned 32-bit integer on the
  platforms of libpciaccess; the implicit conversion of the argument reduces it
  modulo \<open>2 ^ 32\<close>.
\<close>

definition sampleCount :: int where
  "sampleCount = 100"

definition interval :: int where
  "interval = cdiv 1000000 sampleCount"

definition elapsedMicros :: "int \<Rightarrow> int \<Rightarrow> int" where
  "elapsedMicros startTime currentTime = cdiv (currentTime - startTime) 1000"

definition sleepLength :: "int \<Rightarrow> int \<Rightarrow> int" where
  "sleepLength i elapsed = (i + 1) * interval - elapsed"

type_synonym useconds_t = "32 word"

definition usleep_arg :: "int \<Rightarrow> useconds_t" where
  "usleep_arg d = word_of_int d"

text \<open>
  What one sampling window observes of the outside world: the register file at every
  read (tick, counter), the time point taken before tick 0 and the time point taken after
  the reads of every tick.
\<close>

record window_env =
  mmio :: "nat \<Rightarrow> nat \<Rightarrow> regs"
  startTime :: int
  currentTime :: "nat \<Rightarrow> int"

text \<open>
  The body of the tick loop.  The state is the accumulator together with the list of the
  arguments \<open>usleep\<close> has been called with so far.
\<close>

definition sampleTick ::
  "window_env \<Rightarrow> int \<Rightarrow> (int list \<times> useconds_t list) option \<Rightarrow> (int list \<times> useconds_t list) option" where
  "sampleTick env i st =
     Option.bind st (\<lambda>(counts, sleeps).
       Option.bind (sampleCounters (mmio env (nat i)) counts) (\<lambda>counts'.
         let elapsed = elapsedMicros (startTime env) (currentTime env (nat i))
         in Some (counts', sleeps @ [usleep_arg (sleepLength i elapsed)])))"

text \<open>The first \<open>n\<close> ticks of a window, from the zeroed accumulator.\<close>

definition sampleTicks :: "window_env \<Rightarrow> int \<Rightarrow> (int list \<times> useconds_t list) option" where
  "sampleTicks env n =
     for_loop 0 n (sampleTick env) (Some (replicate (length counters) 0, []))"

subsection \<open>Ordering the display\<close>

text \<open>
  Modelled from the spec: \<open>std::stable_sort\<close> is a function of the C++ standard library
  and is not part of the sources.  The spec asks for a stable ordering by descending count
  in which ties keep their previous relative order; this is the contract of the
  standard, whose result is a permutation of the range that is ordered with respect to the
  comparison and keeps equivalent elements in their original order.  The model is the
  stable insertion sort; \<open>cmp a b\<close> says that \<open>a\<close> has to come before \<open>b\<close>.
\<close>

fun insert_stable :: "('a \<Rightarrow> 'a \<Rightarrow> bool) \<Rightarrow> 'a \<Rightarrow> 'a list \<Rightarrow> 'a list" where
  "insert_stable cmp x [] = [x]"
| "insert_stable cmp x (y # ys) =
     (if cmp y x then y # insert_stable cmp x ys else x # y # ys)"

definition stable_sort :: "('a \<Rightarrow> 'a \<Rightarrow> bool) \<Rightarrow> 'a list \<Rightarrow> 'a list" where
  "stable_sort cmp xs = foldr (insert_stable cmp) xs []"

text \<open>The lambda of \<open>main\<close>: \<open>counts[a] > counts[b]\<close>.\<close>

definition byCount :: "int list \<Rightarrow> nat \<Rightarrow> nat \<Rightarrow> bool" where
  "byCount counts a b \<longleftrightarrow> counts ! a > counts ! b"

text \<open>The initialisation loop \<open>counterIndices[i] = i\<close>.\<close>

definition initialIndices :: "nat list" where
  "initialIndices =
     for_loop 0 (int (length counters)) (\<lambda>i v. v[nat i := nat i])
       (replicate (length counters) 0)"

subsection \<open>Rendering\<close>

definition bars :: "string list" where
  "bars =
    [ '' '',
      [CHR 0xE2, CHR 0x96, CHR 0x8F],
      [CHR 0xE2, CHR 0x96, CHR 0x8E],
      [CHR 0xE2, CHR 0x96, CHR 0x8D],
      [CHR 0xE2, CHR 0x96, CHR 0x8C],
      [CHR 0xE2, CHR 0x96, CHR 0x8B],
      [CHR 0xE2, CHR 0x96, CHR 0x8A],
      [CHR 0xE2, CHR 0x96, CHR 0x89],
      [CHR 0xE2, CHR 0x96, CHR 0x88] ]"

text \<open>Decimal output of an \<open>int\<close>, and right alignment in a field (\<open>std::setw\<close>).\<close>

function show_nat :: "nat \<Rightarrow> string" where
  "show_nat n =
     (if n < 10 then [char_of (48 + n)]
      else show_nat (n div 10) @ [char_of (48 + n mod 10)])"
  by pat_completeness auto
termination
  by (relation "measure (\<lambda>n. n)") auto

declare show_nat.simps [simp del]

definition show_int :: "int \<Rightarrow> string" where
  "show_int i = (if i < 0 then CHR ''-'' # show_nat (nat (- i)) else show_nat (nat i))"

definition setw :: "nat \<Rightarrow> string \<Rightarrow> string" where
  "setw w s = replicate (w - length s) CHR '' '' @ s"

text \<open>
  An output stream is the list of the pieces written to it, one for every \<open><<\<close>.
  \<open>bars[percentage % 8]\<close> is unchecked: an index outside the array is undefined
  behaviour (\<open>None\<close>).
\<close>

type_synonym ostream = "string list"

definition printCounter :: "ostream \<Rightarrow> string \<Rightarrow> int \<Rightarrow> ostream option" where
  "printCounter os nm percentage0 =
     (let os1 = os @ [setw 10 nm, '' '', setw 3 (show_int percentage0), ''% ''];
          percentage = percentage0 * 2;
          len = 1 + cdiv percentage 8;
          os2 = for_loop 0 (cdiv percentage 8) (\<lambda>i os. os @ [bars ! 8]) os1
      in if \<not> (0 \<le> cmod percentage 8 \<and> cmod percentage 8 < int (length bars)) then None
         else Some (for_loop len 32 (\<lambda>i os. os @ ['' ''])
                      (os2 @ [bars ! nat (cmod percentage 8)])))"

definition clearScreen :: string where
  "clearScreen = CHR 0x1B # ''[2J'' @ CHR 0x1B # ''[1;1H''"

definition newline :: string where
  "newline = [CHR 0x0A]"

text \<open>The body of the output loop: the line of the counter at position \<open>i\<close>.\<close>

definition printLine :: "int list \<Rightarrow> nat list \<Rightarrow> int \<Rightarrow> ostream option \<Rightarrow> ostream option" where
  "printLine counts counterIndices i st =
     Option.bind st (\<lambda>os.
       if \<not> nat i < length counterIndices then None
       else let a = counterIndices ! nat i in
         if \<not> (a < length counters \<and> a < length counts) then None
         else Option.bind
                (printCounter os (name (counters ! a)) (cdiv (counts ! a * 100) sampleCount))
                (\<lambda>os'. Some (os' @ [newline])))"

subsection \<open>One window\<close>

record window_result =
  accumulator :: "int list"
  sleeps :: "useconds_t list"
  displayOrder :: "nat list"
  frame :: ostream

text \<open>
  One pass of the body of \<open>for(;;)\<close>: sample, sort the indices, clear the screen and
  print.  The comparison reads \<open>counts\<close> unchecked, so an index outside \<open>counts\<close>
  is undefined behaviour.
\<close>

definition window :: "window_env \<Rightarrow> nat list \<Rightarrow> window_result option" where
  "window env counterIndices =
     (case sampleTicks env sampleCount of
        None \<Rightarrow> None
      | Some (counts, slept) \<Rightarrow>
          if \<not> list_all (\<lambda>a. a < length counts) counterIndices then None
          else
            let sorted = stable_sort (byCount counts) counterIndices in
            (case for_loop 0 (int (length counters)) (printLine counts sorted)
                    (Some [clearScreen]) of
               None \<Rightarrow> None
             | Some out \<Rightarrow>
                 Some \<lparr>accumulator = counts, sleeps = slept,
                       displayOrder = sorted, frame = out\<rparr>))"

text \<open>
  The first \<open>n\<close> windows: the display order carried to window \<open>n\<close> and the frames
  written so far.  \<open>envs w\<close> is what window \<open>w\<close> observes.
\<close>

fun runWindows :: "(nat \<Rightarrow> window_env) \<Rightarrow> nat \<Rightarrow> (nat list \<times> ostream list) option" where
  "runWindows envs 0 = Some (initialIndices, [])"
| "runWindows envs (Suc n) =
     (case runWindows envs n of
        None \<Rightarrow> None
      | Some (counterIndices, frames) \<Rightarrow>
          (case window (envs n) counterIndices of
             None \<Rightarrow> None
           | Some r \<Rightarrow> Some (displayOrder r, frames @ [frame r])))"

subsection \<open>Start-up and the main loop\<close>

text \<open>
  libpciaccess is outside the program.  Its answers are part of the environment: the
  status of \<open>pci_system_init\<close>, the first device of the iterator for a match (if any),
  the status of \<open>pci_device_probe\<close> with the device as probed, and the status of
  \<open>pci_device_map_range\<close>.
\<close>

record pci_id_match =
  match_vendor_id :: u32
  match_device_id :: u32
  match_subvendor_id :: u32
  match_subdevice_id :: u32
  match_device_class :: u32
  match_device_class_mask :: u32
  match_data :: int

record pci_device =
  vendor_id :: "16 word"
  region5_base_addr :: "64 word"

record pciaccess =
  pci_system_init :: int
  pci_device_next :: "pci_id_match \<Rightarrow> pci_device option"
  pci_device_probe :: "pci_device \<Rightarrow> int \<times> pci_device"
  pci_device_map_range :: "pci_device \<Rightarrow> 64 word \<Rightarrow> nat \<Rightarrow> int"

definition PCI_MATCH_ANY :: u32 where
  "PCI_MATCH_ANY = NOT 0"

text \<open>
  How a run of the process ends, if it ends: \<open>std::exit\<close> with a status after the
  lines written to standard error, or undefined behaviour.
\<close>

datatype outcome = Exited int "string list" | Undefined

text \<open>The \<open>pci_id_match\<close> that \<open>getPCIDevice\<close> fills in.\<close>

definition gpuMatch :: pci_id_match where
  "gpuMatch =
     \<lparr>match_vendor_id = 0x1002, match_device_id = 0x6939,
      match_subvendor_id = PCI_MATCH_ANY, match_subdevice_id = PCI_MATCH_ANY,
      match_device_class = push_bit 16 0x3,
      match_device_class_mask = push_bit 16 0xff,
      match_data = 0\<rparr>"

definition getPCIDevice :: "pciaccess \<Rightarrow> outcome + pci_device" where
  "getPCIDevice pci =
     (if pci_system_init pci \<noteq> 0 then
        Inl (Exited 1 [''could not initialize PCI'' @ [CHR 0x0A]])
      else
        case pci_device_next pci gpuMatch of
          None \<Rightarrow> Inl (Exited 1 [''could not find an AMD TONGA GPU'' @ [CHR 0x0A]])
        | Some device0 \<Rightarrow>
            (case pci_device_probe pci device0 of
               (error, device) \<Rightarrow>
                 if error \<noteq> 0 then Inl (Exited 1 [''could not probe GPU'' @ [CHR 0x0A]])
                 else if vendor_id device \<noteq> 0x1002 then
                   Inl (Exited 1 [''Graphics card is not identified'' @ [CHR 0x0A]])
                 else Inr device))"

text \<open>
  \<open>for(;;)\<close> has no exit: a run that never returns has the value \<open>None\<close>.
\<close>

partial_function (option) mainLoop :: "(nat \<Rightarrow> window_env) \<Rightarrow> nat \<Rightarrow> nat list \<Rightarrow> outcome option" where
  "mainLoop envs w counterIndices =
     (case window (envs w) counterIndices of
        None \<Rightarrow> Some Undefined
      | Some r \<Rightarrow> mainLoop envs (Suc w) (displayOrder r))"

record environment =
  pci :: pciaccess
  windows :: "nat \<Rightarrow> window_env"

definition main :: "environment \<Rightarrow> outcome option" where
  "main env =
     (case getPCIDevice (pci env) of
        Inl e \<Rightarrow> Some e
      | Inr dev \<Rightarrow>
          if pci_device_map_range (pci env) dev (region5_base_addr dev) mapSize \<noteq> 0 then
            Some (Exited 1 [''mmio mem map failed (try to run as root)'' @ [CHR 0x0A]])
          else mainLoop (windows env) 0 initialIndices)"

section \<open>Closed forms of the loops\<close>

text \<open>
  The names below do not occur in the program.  They describe what its loops compute, and
  the lemmas of the next section prove that they do.
\<close>

text \<open>The read \<open>raw\<close> makes counter \<open>c\<close> count.\<close>

abbreviation hit :: "Counter \<Rightarrow> u32 \<Rightarrow> bool" where
  "hit c raw \<equiv> (isIdle c \<longleftrightarrow> raw AND mask c = 0)"

text \<open>The number of ticks among the first \<open>n\<close> of a window at which counter \<open>i\<close> counts.\<close>

abbreviation busyTicks :: "window_env \<Rightarrow> nat \<Rightarrow> nat \<Rightarrow> nat" where
  "busyTicks env i n \<equiv>
     length (filter (\<lambda>t. hit (counters ! i) (mmio env t i (index (counters ! i)))) [0..<n])"

abbreviation tally :: "window_env \<Rightarrow> int list" where
  "tally env \<equiv> map (\<lambda>i. int (busyTicks env i (nat sampleCount))) [0..<length counters]"

text \<open>The argument of \<open>usleep\<close> at tick \<open>t\<close>.\<close>

abbreviation sleepAt :: "window_env \<Rightarrow> nat \<Rightarrow> useconds_t" where
  "sleepAt env t \<equiv>
     usleep_arg (sleepLength (int t) (elapsedMicros (startTime env) (currentTime env t)))"

text \<open>What \<open>printCounter\<close> writes for a percentage that is not negative.\<close>

definition barCells :: "int \<Rightarrow> string list" where
  "barCells p =
     replicate (nat (p * 2 div 8)) (bars ! 8) @ [bars ! nat (p * 2 mod 8)] @
     replicate (32 - (nat (p * 2 div 8) + 1)) '' ''"

definition lineCells :: "string \<Rightarrow> int \<Rightarrow> string list" where
  "lineCells nm p = [setw 10 nm, '' '', setw 3 (show_int p), ''% ''] @ barCells p"

text \<open>The line of counter \<open>a\<close> in a frame, with its line break.\<close>

definition lineOf :: "int list \<Rightarrow> nat \<Rightarrow> string list" where
  "lineOf counts a =
     lineCells (name (counters ! a)) (cdiv (counts ! a * 100) sampleCount) @ [newline]"

text \<open>A display order is valid when it is a permutation of the counter indices.\<close>

definition validOrder :: "nat list \<Rightarrow> bool" where
  "validOrder idx \<longleftrightarrow> mset idx = mset [0..<length counters]"

text \<open>The display order carried into window \<open>n\<close>.\<close>

primrec orderAfter :: "(nat \<Rightarrow> window_env) \<Rightarrow> nat \<Rightarrow> nat list" where
  "orderAfter envs 0 = initialIndices"
| "orderAfter envs (Suc n) = stable_sort (byCount (tally (envs n))) (orderAfter envs n)"

text \<open>Two environments to run the program in: every register reads 0, or all ones.\<close>

definition idleEnv :: window_env where
  "idleEnv = \<lparr>mmio = (\<lambda>t i r. 0), startTime = 0, currentTime = (\<lambda>t. 0)\<rparr>"

definition busyEnv :: window_env where
  "busyEnv = \<lparr>mmio = (\<lambda>t i r. 0xFFFFFFFF), startTime = 0, currentTime = (\<lambda>t. 0)\<rparr>"

text \<open>
  An environment with a late tick: at every tick the clock stands 20005 microseconds after
  the start of the window.
\<close>

definition lateEnv :: window_env where
  "lateEnv = \<lparr>mmio = (\<lambda>t i r. 0), startTime = 1000, currentTime = (\<lambda>t. 20006000)\<rparr>"

text \<open>An environment in which every counter that is not idle-polarity reads busy in the first 37 ticks only.\<close>

definition partEnv :: window_env where
  "partEnv = \<lparr>mmio = (\<lambda>t i r. if t < 37 then 0xFFFFFFFF else 0), startTime = 0,
               currentTime = (\<lambda>t. 0)\<rparr>"

text \<open>
  A bus on which everything succeeds, with one matching device, and the environments in
  which exactly one step of the start-up fails.
\<close>

definition tonga :: pci_device where
  "tonga = \<lparr>vendor_id = 0x1002, region5_base_addr = 0\<rparr>"

definition pciOk :: pciaccess where
  "pciOk = \<lparr>pci_system_init = 0, pci_device_next = (\<lambda>m. Some tonga),
            pci_device_probe = (\<lambda>d. (0, d)), pci_device_map_range = (\<lambda>d b s. 0)\<rparr>"

definition envOk :: environment where
  "envOk = \<lparr>pci = pciOk, windows = (\<lambda>w. idleEnv)\<rparr>"

definition envInitFails :: environment where
  "envInitFails = envOk\<lparr>pci := pciOk\<lparr>pci_system_init := - 1\<rparr>\<rparr>"

definition envNoDevice :: environment where
  "envNoDevice = envOk\<lparr>pci := pciOk\<lparr>pci_device_next := (\<lambda>m. None)\<rparr>\<rparr>"

definition envProbeFails :: environment where
  "envProbeFails = envOk\<lparr>pci := pciOk\<lparr>pci_device_probe := (\<lambda>d. (- 1, d))\<rparr>\<rparr>"

definition envOtherVendor :: environment where
  "envOtherVendor =
     envOk\<lparr>pci := pciOk\<lparr>pci_device_probe := (\<lambda>d. (0, d\<lparr>vendor_id := 0x10de\<rparr>))\<rparr>\<rparr>"

definition envMapFails :: environment where
  "envMapFails = envOk\<lparr>pci := pciOk\<lparr>pci_device_map_range := (\<lambda>d b s. 13)\<rparr>\<rparr>"

section \<open>Lemmas\<close>

subsection \<open>Arithmetic and counted loops\<close>

lemma cdiv_nonneg: "0 \<le> a \<Longrightarrow> 0 < b \<Longrightarrow> cdiv a b = a div b"
  by (simp add: cdiv_def sgn_if)

lemma cmod_nonneg: "0 \<le> a \<Longrightarrow> 0 < b \<Longrightarrow> cmod a b = a mod b"
  by (simp add: cmod_def cdiv_nonneg minus_mult_div_eq_mod)

lemma for_loop_fold:
  "for_loop (int a) (int b) body s = fold (\<lambda>k. body (int k)) [a..<b] s"
proof (induction "b - a" arbitrary: a s)
  case 0
  then show ?case by (simp add: for_loop.simps)
next
  case (Suc d)
  then have lt: "a < b" and d: "d = b - Suc a" by simp_all
  have "for_loop (int a) (int b) body s = for_loop (int (Suc a)) (int b) body (body (int a) s)"
    using lt by (subst for_loop.simps) (simp add: add.commute)
  also have "\<dots> = fold (\<lambda>k. body (int k)) [Suc a..<b] (body (int a) s)"
    by (rule Suc.hyps(1) [OF d])
  also have "\<dots> = fold (\<lambda>k. body (int k)) [a..<b] s"
    using lt by (simp add: upt_conv_Cons)
  finally show ?case .
qed

lemma for_loop_from_0:
  "for_loop 0 (int n) body s = fold (\<lambda>k. body (int k)) [0..<n] s"
  using for_loop_fold [of 0 n body s] by simp

lemma for_loop_append:
  "for_loop (int a) (int b) (\<lambda>i os. os @ [x]) s = s @ replicate (b - a) x"
proof -
  have "fold (\<lambda>k os. os @ [x]) ks s = s @ replicate (length ks) x" for ks :: "nat list"
    by (induction ks arbitrary: s) (simp_all add: replicate_append_same)
  then show ?thesis by (simp add: for_loop_fold)
qed

lemma for_loop_append_int:
  assumes "0 \<le> a"
  shows "for_loop a b (\<lambda>i os. os @ [x]) s = s @ replicate (nat b - nat a) x"
proof (cases "0 \<le> b")
  case True
  with assms for_loop_append [of "nat a" "nat b" x s] show ?thesis by simp
next
  case False
  with assms show ?thesis by (subst for_loop.simps) simp
qed

lemma sampleCount_interval: "sampleCount = 100" "interval = 10000"
  by (simp_all add: interval_def sampleCount_def cdiv_def)

lemma uint_usleep_arg: "uint (usleep_arg d) = d mod 2 ^ 32"
  by (simp add: usleep_arg_def uint_word_of_int)

lemma length_filter_less: "length (filter (\<lambda>t. t < k) [0..<n]) = min k n"
  by (induction n) auto

subsection \<open>The table and the sampling loops\<close>

lemma length_counters: "length counters = 10"
  by (simp add: counters_def)

lemma counters_index_bound: "c \<in> set counters \<Longrightarrow> unat (index c) \<le> 0x360d"
  by (auto simp: counters_def)

lemma readReg_counters:
  assumes "c \<in> set counters"
  shows "readReg mmioAddress (index c) = Some (mmioAddress (index c))"
  using counters_index_bound [OF assms] by (simp add: readReg_def mapSize_def)

lemma sampleCounter_closed:
  assumes "i < length counters" "length counts = length counters"
  shows "sampleCounter mmioAddress i counts =
    Some (if isIdle (counters ! i) \<longleftrightarrow> mmioAddress (index (counters ! i)) AND mask (counters ! i) = 0
          then counts[i := counts ! i + 1] else counts)"
proof -
  have "counters ! i \<in> set counters" using assms by simp
  then have "readReg mmioAddress (index (counters ! i)) = Some (mmioAddress (index (counters ! i)))"
    by (rule readReg_counters)
  then show ?thesis using assms by (simp add: sampleCounter_def)
qed

lemma length_sampleCounter:
  "sampleCounter mmioAddress i counts = Some counts' \<Longrightarrow> length counts' = length counts"
  by (auto simp: sampleCounter_def split: if_splits option.splits)

lemma sampleCounters_prefix:
  assumes len: "length counts = length counters" and n: "n \<le> length counters"
  shows "fold (\<lambda>k st. Option.bind st (sampleCounter (regs (nat (int k))) (nat (int k)))) [0..<n] (Some counts) =
    Some (map (\<lambda>i. if i < n \<and> hit (counters ! i) (regs i (index (counters ! i)))
                     then counts ! i + 1 else counts ! i) [0..<length counters])"
  using n
proof (induction n)
  case 0
  show ?case using map_nth [of counts] by (simp add: len)
next
  case (Suc n)
  let ?L = "map (\<lambda>i. if i < n \<and> hit (counters ! i) (regs i (index (counters ! i)))
                     then counts ! i + 1 else counts ! i) [0..<length counters]"
  have n: "n < length counters" using Suc.prems by simp
  have IH: "fold (\<lambda>k st. Option.bind st (sampleCounter (regs (nat (int k))) (nat (int k)))) [0..<n] (Some counts) = Some ?L"
    using Suc by simp
  have step: "sampleCounter (regs n) n ?L =
      Some (if hit (counters ! n) (regs n (index (counters ! n))) then ?L[n := ?L ! n + 1] else ?L)"
    by (rule sampleCounter_closed) (use n in simp_all)
  have "(if hit (counters ! n) (regs n (index (counters ! n))) then ?L[n := ?L ! n + 1] else ?L) =
      map (\<lambda>i. if i < Suc n \<and> hit (counters ! i) (regs i (index (counters ! i)))
                     then counts ! i + 1 else counts ! i) [0..<length counters]"
    using n by (intro nth_equalityI) (auto simp: nth_list_update less_Suc_eq)
  with IH step show ?case by simp
qed

lemma sampleCounters_closed:
  assumes "length counts = length counters"
  shows "sampleCounters regs counts =
    Some (map (\<lambda>i. if hit (counters ! i) (regs i (index (counters ! i)))
                     then counts ! i + 1 else counts ! i) [0..<length counters])"
proof -
  have "sampleCounters regs counts =
      fold (\<lambda>k st. Option.bind st (sampleCounter (regs (nat (int k))) (nat (int k)))) [0..<length counters] (Some counts)"
    unfolding sampleCounters_def assms by (rule for_loop_from_0)
  also have "\<dots> = Some (map (\<lambda>i. if i < length counters \<and> hit (counters ! i) (regs i (index (counters ! i)))
                     then counts ! i + 1 else counts ! i) [0..<length counters])"
    by (rule sampleCounters_prefix [OF assms order_refl])
  also have "\<dots> = Some (map (\<lambda>i. if hit (counters ! i) (regs i (index (counters ! i)))
                     then counts ! i + 1 else counts ! i) [0..<length counters])"
    by simp
  finally show ?thesis .
qed

lemma sampleTick_closed:
  assumes "length counts = length counters"
  shows "sampleTick env (int t) (Some (counts, sl)) =
    Some (map (\<lambda>i. if hit (counters ! i) (mmio env t i (index (counters ! i)))
                     then counts ! i + 1 else counts ! i) [0..<length counters],
          sl @ [sleepAt env t])"
  by (simp add: sampleTick_def sampleCounters_closed [OF assms])

lemma sampleTicks_closed:
  "sampleTicks env (int n) =
     Some (map (\<lambda>i. int (busyTicks env i n)) [0..<length counters], map (sleepAt env) [0..<n])"
proof (induction n)
  case 0
  show ?case
    by (simp add: sampleTicks_def for_loop.simps length_counters) code_simp
next
  case (Suc n)
  have "sampleTicks env (int (Suc n)) = sampleTick env (int n) (sampleTicks env (int n))"
    unfolding sampleTicks_def for_loop_from_0 by simp
  also have "\<dots> = sampleTick env (int n)
      (Some (map (\<lambda>i. int (busyTicks env i n)) [0..<length counters], map (sleepAt env) [0..<n]))"
    by (simp only: Suc.IH)
  also have "\<dots> = Some (map (\<lambda>i. int (busyTicks env i (Suc n))) [0..<length counters],
      map (sleepAt env) [0..<Suc n])"
    by (subst sampleTick_closed) simp_all
  finally show ?case .
qed

lemma busyTicks_Suc:
  "busyTicks env i (Suc t) =
     busyTicks env i t + (if hit (counters ! i) (mmio env t i (index (counters ! i))) then 1 else 0)"
  by simp

lemma busyTicks_le: "busyTicks env i n \<le> n"
  using length_filter_le [of _ "[0..<n]"] by simp

lemma tally_nonneg: "a < length counters \<Longrightarrow> 0 \<le> tally env ! a"
  by simp

subsection \<open>The stable sort\<close>

text \<open>
  For the comparison of \<open>main\<close> the model of \<open>std::stable_sort\<close> is the stable
  insertion sort of the library with the key \<open>- counts[a]\<close>.  Lemma
  \<open>stable_sort_unique\<close> shows that the contract of the standard leaves no choice: any
  permutation of the input that is ordered for the comparison and keeps indices of equal
  count in their order is the result of \<open>stable_sort\<close>.
\<close>

lemma insert_stable_insort_key:
  "insert_stable (byCount counts) x ys = insort_key (\<lambda>a. - (counts ! a)) x ys"
  by (induction ys) (auto simp: byCount_def)

lemma stable_sort_sort_key:
  "stable_sort (byCount counts) xs = sort_key (\<lambda>a. - (counts ! a)) xs"
  by (induction xs) (simp_all add: stable_sort_def insert_stable_insort_key)

lemma mset_stable_sort: "mset (stable_sort (byCount counts) xs) = mset xs"
  by (simp add: stable_sort_sort_key)

lemma set_stable_sort: "set (stable_sort (byCount counts) xs) = set xs"
  by (simp add: stable_sort_sort_key)

lemma length_stable_sort: "length (stable_sort (byCount counts) xs) = length xs"
  by (simp add: stable_sort_sort_key)

lemma distinct_stable_sort: "distinct (stable_sort (byCount counts) xs) = distinct xs"
  by (simp add: stable_sort_sort_key)

lemma sorted_stable_sort:
  "sorted_wrt (\<lambda>a b. counts ! a \<ge> counts ! b) (stable_sort (byCount counts) xs)"
proof -
  have "sorted (map (\<lambda>a. - (counts ! a)) (sort_key (\<lambda>a. - (counts ! a)) xs))"
    by (rule sorted_sort_key)
  then show ?thesis
    by (simp add: stable_sort_sort_key sorted_map)
qed

lemma stable_sort_stable:
  "filter (\<lambda>a. counts ! a = k) (stable_sort (byCount counts) xs) = filter (\<lambda>a. counts ! a = k) xs"
proof -
  have "filter (\<lambda>a. - (counts ! a) = - k) (sort_key (\<lambda>a. - (counts ! a)) xs) =
        filter (\<lambda>a. - (counts ! a) = - k) xs"
    by (rule sort_key_stable)
  then show ?thesis by (simp add: stable_sort_sort_key)
qed

lemma stable_sort_pair_order:
  assumes "counts ! a = counts ! b"
  shows "filter (\<lambda>x. x = a \<or> x = b) (stable_sort (byCount counts) xs) = filter (\<lambda>x. x = a \<or> x = b) xs"
proof -
  have eq: "filter (\<lambda>x. x = a \<or> x = b) ys = filter (\<lambda>x. x = a \<or> x = b) (filter (\<lambda>x. counts ! x = counts ! a) ys)" for ys
    using assms by (auto intro: filter_cong)
  show ?thesis
    by (subst eq, subst stable_sort_stable, subst eq [symmetric]) (rule refl)
qed

lemma stable_sort_unique:
  assumes "mset ys = mset xs"
    and "sorted_wrt (\<lambda>a b. \<not> byCount counts b a) ys"
    and "\<And>k. filter (\<lambda>a. counts ! a = k) ys = filter (\<lambda>a. counts ! a = k) xs"
  shows "stable_sort (byCount counts) xs = ys"
proof -
  have "sort_key (\<lambda>a. - (counts ! a)) xs = ys"
  proof (rule properties_for_sort_key)
    show "mset ys = mset xs" by fact
    show "filter (\<lambda>x. - (counts ! k) = - (counts ! x)) ys = filter (\<lambda>x. - (counts ! k) = - (counts ! x)) xs" for k
      using assms(3) [of "counts ! k"] by (simp add: eq_commute)
    show "sorted (map (\<lambda>a. - (counts ! a)) ys)"
      using assms(2) by (simp add: sorted_map byCount_def not_less)
  qed
  then show ?thesis by (simp add: stable_sort_sort_key)
qed

lemma stable_sort_example: "stable_sort (byCount [50, 50, 30]) [0, 1, 2] = [0, 1, 2]"
  by (simp add: stable_sort_def byCount_def)

subsection \<open>Printing\<close>

lemma printCounter_closed:
  assumes "0 \<le> p"
  shows "printCounter os nm p = Some (os @ lineCells nm p)"
proof -
  have d: "cdiv (p * 2) 8 = p * 2 div 8" and m: "cmod (p * 2) 8 = p * 2 mod 8"
    using assms by (simp_all add: cdiv_nonneg cmod_nonneg)
  have nn: "0 \<le> p * 2 div 8" using assms by simp
  have r: "0 \<le> p * 2 mod 8" "p * 2 mod 8 < int (length bars)"
    by (simp_all add: bars_def)
  have n: "nat (1 + p * 2 div 8) = nat (p * 2 div 8) + 1"
    using nn by simp
  show ?thesis
    unfolding printCounter_def Let_def d m lineCells_def barCells_def
    using r nn by (simp only: for_loop_append_int n) simp
qed

lemma length_barCells: "0 \<le> p \<Longrightarrow> p \<le> 100 \<Longrightarrow> length (barCells p) = 32"
  by (simp add: barCells_def)

lemma percentage_nonneg: "0 \<le> c \<Longrightarrow> 0 \<le> cdiv (c * 100) sampleCount"
  by (simp add: cdiv_nonneg sampleCount_def)

lemma printLine_closed:
  assumes "n < length idx" "idx ! n < length counters" "idx ! n < length counts" "0 \<le> counts ! (idx ! n)"
  shows "printLine counts idx (int n) (Some os) = Some (os @ lineOf counts (idx ! n))"
  using assms
  by (simp add: printLine_def Let_def printCounter_closed percentage_nonneg lineOf_def)

lemma printLines_prefix:
  assumes "\<forall>a \<in> set idx. a < length counters \<and> a < length counts \<and> 0 \<le> counts ! a"
    and "n \<le> length idx"
  shows "fold (\<lambda>k. printLine counts idx (int k)) [0..<n] (Some os) =
     Some (os @ concat (map (lineOf counts) (take n idx)))"
  using assms(2)
proof (induction n)
  case 0
  show ?case by simp
next
  case (Suc n)
  then have n: "n < length idx" by simp
  then have "idx ! n \<in> set idx" by simp
  with assms(1) have a: "idx ! n < length counters" "idx ! n < length counts" "0 \<le> counts ! (idx ! n)"
    by blast+
  show ?case
    using Suc n by (simp add: printLine_closed [OF n a] take_Suc_conv_app_nth)
qed

subsection \<open>A window\<close>

lemma window_closed:
  assumes "length idx = length counters" "\<forall>a \<in> set idx. a < length counters"
  shows "window env idx =
     Some \<lparr>accumulator = tally env,
           sleeps = map (sleepAt env) [0..<nat sampleCount],
           displayOrder = stable_sort (byCount (tally env)) idx,
           frame = clearScreen # concat (map (lineOf (tally env)) (stable_sort (byCount (tally env)) idx))\<rparr>"
proof -
  let ?cs = "tally env"
  let ?ord = "stable_sort (byCount ?cs) idx"
  have t: "sampleTicks env sampleCount = Some (?cs, map (sleepAt env) [0..<nat sampleCount])"
    using sampleTicks_closed [of env "nat sampleCount"] by (simp add: sampleCount_def)
  have la: "list_all (\<lambda>a. a < length ?cs) idx"
    using assms by (simp add: list_all_iff)
  have ok: "\<forall>a \<in> set ?ord. a < length counters \<and> a < length ?cs \<and> 0 \<le> ?cs ! a"
    using assms by (simp add: set_stable_sort)
  have "for_loop 0 (int (length counters)) (printLine ?cs ?ord) (Some [clearScreen]) =
      fold (\<lambda>k. printLine ?cs ?ord (int k)) [0..<length counters] (Some [clearScreen])"
    by (rule for_loop_from_0)
  also have "\<dots> = Some ([clearScreen] @ concat (map (lineOf ?cs) (take (length counters) ?ord)))"
    by (rule printLines_prefix [OF ok]) (simp add: length_stable_sort assms)
  finally have p: "for_loop 0 (int (length counters)) (printLine ?cs ?ord) (Some [clearScreen]) =
      Some (clearScreen # concat (map (lineOf ?cs) ?ord))"
    by (simp add: length_stable_sort assms)
  show ?thesis
    unfolding window_def t using la by (simp add: Let_def p)
qed

lemma initialIndices_eq: "initialIndices = [0..<length counters]"
  by code_simp

lemma validOrder_props:
  assumes "validOrder idx"
  shows "length idx = length counters" "\<forall>a \<in> set idx. a < length counters" "distinct idx"
proof -
  from assms have m: "mset idx = mset [0..<length counters]" by (simp add: validOrder_def)
  from m show "length idx = length counters" by (metis length_upt mset_eq_length minus_nat.diff_0)
  from m have "set idx = set [0..<length counters]" by (rule mset_eq_setD)
  then show "\<forall>a \<in> set idx. a < length counters" by simp
  from m show "distinct idx" by (metis distinct_upt mset_eq_imp_distinct_iff)
qed

lemma validOrder_initial: "validOrder initialIndices"
  by (simp add: validOrder_def initialIndices_eq)

lemma validOrder_window:
  assumes "validOrder idx" "window env idx = Some r"
  shows "validOrder (displayOrder r)"
proof -
  have "displayOrder r = stable_sort (byCount (tally env)) idx"
    using window_closed [OF validOrder_props(1,2) [OF assms(1)], of env] assms(2) by auto
  then show ?thesis
    using assms(1) by (simp add: validOrder_def mset_stable_sort)
qed

lemma window_defined: "validOrder idx \<Longrightarrow> window env idx \<noteq> None"
  using window_closed [OF validOrder_props(1,2), of idx env] by simp

lemma window_accumulator:
  assumes "validOrder idx"
  shows "\<exists>r. window env idx = Some r \<and> accumulator r = tally env"
  using window_closed [OF validOrder_props(1,2) [OF assms], of env] by simp

lemma window_sleeps:
  assumes "validOrder idx"
  shows "\<exists>r. window env idx = Some r \<and> sleeps r = map (sleepAt env) [0..<nat sampleCount]"
  using window_closed [OF validOrder_props(1,2) [OF assms], of env] by simp

lemma window_displayOrder:
  assumes "validOrder idx"
  shows "\<exists>r. window env idx = Some r \<and> displayOrder r = stable_sort (byCount (accumulator r)) idx"
  using window_closed [OF validOrder_props(1,2) [OF assms], of env] by simp

lemma window_frame:
  assumes "validOrder idx"
  shows "\<exists>r. window env idx = Some r \<and> accumulator r = tally env \<and>
     validOrder (displayOrder r) \<and>
     frame r = clearScreen # concat (map (lineOf (accumulator r)) (displayOrder r))"
proof -
  from window_closed [OF validOrder_props(1,2) [OF assms], of env]
  obtain r where r: "window env idx = Some r" "accumulator r = tally env"
    "frame r = clearScreen # concat (map (lineOf (accumulator r)) (displayOrder r))"
    by simp
  from validOrder_window [OF assms r(1)] r show ?thesis by blast
qed

subsection \<open>The main loop\<close>

text \<open>
  From a valid display order a window is defined and gives a valid order again, so the
  recursion of \<open>mainLoop\<close> never reaches a value: the loop does not return.
\<close>

lemma mainLoop_Some_invalid:
  assumes "mainLoop envs w idx = Some y"
  shows "\<not> validOrder idx"
proof (rule mainLoop.raw_induct [where P = "\<lambda>envs w idx y. \<not> validOrder idx", OF _ assms])
  fix f :: "(nat \<Rightarrow> window_env) \<Rightarrow> nat \<Rightarrow> nat list \<Rightarrow> outcome option"
  fix envs w idx y
  assume IH: "\<And>envs w idx y. f envs w idx = Some y \<Longrightarrow> \<not> validOrder idx"
  assume step: "(case window (envs w) idx of None \<Rightarrow> Some Undefined
                 | Some r \<Rightarrow> f envs (Suc w) (displayOrder r)) = Some y"
  show "\<not> validOrder idx"
  proof
    assume v: "validOrder idx"
    then obtain r where r: "window (envs w) idx = Some r"
      using window_defined [of idx "envs w"] by auto
    with step have "f envs (Suc w) (displayOrder r) = Some y" by simp
    then have "\<not> validOrder (displayOrder r)" by (rule IH)
    with validOrder_window [OF v r] show False by contradiction
  qed
qed

lemma mainLoop_never_returns: "validOrder idx \<Longrightarrow> mainLoop envs w idx = None"
  using mainLoop_Some_invalid [of envs w idx] by (cases "mainLoop envs w idx") auto

lemma validOrder_orderAfter: "validOrder (orderAfter envs n)"
proof (induction n)
  case 0
  show ?case by (simp add: validOrder_initial)
next
  case (Suc n)
  then show ?case
    unfolding validOrder_def orderAfter.simps mset_stable_sort .
qed

lemma runWindows_closed:
  "runWindows envs n =
     Some (orderAfter envs n,
           map (\<lambda>w. clearScreen # concat (map (lineOf (tally (envs w))) (orderAfter envs (Suc w)))) [0..<n])"
proof (induction n)
  case 0
  show ?case by simp
next
  case (Suc n)
  have v: "validOrder (orderAfter envs n)" by (rule validOrder_orderAfter)
  show ?case
    by (simp add: Suc window_closed [OF validOrder_props(1,2) [OF v]])
qed

lemma mainLoop_unfold:
  "mainLoop envs 0 initialIndices = mainLoop envs n (orderAfter envs n)"
proof (induction n)
  case 0
  show ?case by simp
next
  case (Suc n)
  have v: "validOrder (orderAfter envs n)" by (rule validOrder_orderAfter)
  show ?case
    by (subst Suc, subst mainLoop.simps) (simp add: window_closed [OF validOrder_props(1,2) [OF v]])
qed

lemma mainLoop_initial: "mainLoop envs 0 initialIndices = None"
  by (rule mainLoop_never_returns [OF validOrder_initial])

lemma main_cases:
  "main e \<in> insert None ((\<lambda>m. Some (Exited 1 [m])) `
     set [''could not initialize PCI'' @ [CHR 0x0A],
          ''could not find an AMD TONGA GPU'' @ [CHR 0x0A],
          ''could not probe GPU'' @ [CHR 0x0A],
          ''Graphics card is not identified'' @ [CHR 0x0A],
          ''mmio mem map failed (try to run as root)'' @ [CHR 0x0A]])"
  by (simp add: main_def getPCIDevice_def mainLoop_initial split: option.splits prod.splits)

lemma main_not_0: "main e \<noteq> Some (Exited 0 err)"
  using main_cases [of e] by auto

subsection \<open>Line breaks in a frame\<close>

lemma show_nat_no_newline: "CHR 0x0A \<notin> set (show_nat n)"
proof (induction n rule: show_nat.induct)
  case (1 n)
  have d: "char_of (48 + k) \<noteq> CHR 0x0A" if "k < 10" for k :: nat
  proof
    assume "char_of (48 + k) = CHR 0x0A"
    then have "of_char (char_of (48 + k) :: char) = (of_char (CHR 0x0A) :: nat)" by simp
    with that show False by simp
  qed
  show ?case
    using 1 d [of n] d [of "n mod 10"] by (subst show_nat.simps) auto
qed

lemma set_setw: "set (setw w s) \<subseteq> insert CHR '' '' (set s)"
  by (auto simp: setw_def)

lemma show_int_no_newline: "0 \<le> p \<Longrightarrow> CHR 0x0A \<notin> set (show_int p)"
  by (simp add: show_int_def show_nat_no_newline)

lemma bars_no_newline: "b \<in> set bars \<Longrightarrow> CHR 0x0A \<notin> set b"
  by (auto simp: bars_def)

lemma set_barCells:
  assumes "0 \<le> p"
  shows "set (barCells p) \<subseteq> insert '' '' (set bars)"
proof -
  have "nat (p * 2 mod 8) < length bars"
    by (simp add: bars_def nat_less_iff)
  then have "bars ! nat (p * 2 mod 8) \<in> set bars" by (rule nth_mem)
  moreover have "bars ! 8 \<in> set bars" by (simp add: bars_def)
  ultimately show ?thesis by (auto simp: barCells_def)
qed

lemma names_no_newline: "c \<in> set counters \<Longrightarrow> CHR 0x0A \<notin> set (name c)"
  by (auto simp: counters_def)

lemma lineCells_no_newline:
  assumes "CHR 0x0A \<notin> set nm" and "0 \<le> p"
  shows "CHR 0x0A \<notin> set (concat (lineCells nm p))"
proof -
  have a: "CHR 0x0A \<notin> set (setw 10 nm)"
    using set_setw [of 10 nm] assms(1) by auto
  have b: "CHR 0x0A \<notin> set (setw 3 (show_int p))"
    using set_setw [of 3 "show_int p"] show_int_no_newline [OF assms(2)] by auto
  have c: "CHR 0x0A \<notin> set s" if "s \<in> set (barCells p)" for s
    using that set_barCells [OF assms(2)] bars_no_newline [of s] by auto
  from a b c show ?thesis by (auto simp: lineCells_def)
qed

lemma lineOf_one_newline:
  assumes "a < length counters" and "0 \<le> counts ! a"
  shows "filter (\<lambda>c. c = CHR 0x0A) (concat (lineOf counts a)) = [CHR 0x0A]"
proof -
  have "counters ! a \<in> set counters" using assms(1) by simp
  then have "CHR 0x0A \<notin> set (name (counters ! a))" by (rule names_no_newline)
  then have "CHR 0x0A \<notin> set (concat (lineCells (name (counters ! a)) (cdiv (counts ! a * 100) sampleCount)))"
    using percentage_nonneg [OF assms(2)] by (rule lineCells_no_newline)
  then have "filter (\<lambda>c. c = CHR 0x0A) (concat (lineCells (name (counters ! a)) (cdiv (counts ! a * 100) sampleCount))) = []"
    by (auto simp: filter_empty_conv)
  then show ?thesis by (simp add: lineOf_def newline_def)
qed

lemma frame_newlines:
  assumes "\<forall>a \<in> set ord. a < length counters \<and> 0 \<le> counts ! a"
  shows "length (filter (\<lambda>c. c = CHR 0x0A) (concat (clearScreen # concat (map (lineOf counts) ord)))) = length ord"
proof -
  have "length (filter (\<lambda>c. c = CHR 0x0A) (concat (concat (map (lineOf counts) ord)))) = length ord"
    using assms by (induction ord) (simp_all add: lineOf_one_newline)
  moreover have "filter (\<lambda>c. c = CHR 0x0A) clearScreen = []"
    by (simp add: clearScreen_def)
  ultimately show ?thesis by simp
qed

section \<open>The properties of the specification\<close>

subsection \<open>C1: the polarity rule\<close>

text \<open>
  C1.  For every counter \<open>i\<close> and every tick \<open>t\<close> of a window, the accumulator entry
  of the counter after the tick is its entry before the tick plus one exactly when the raw
  read at the register index of the counter, ANDed with its mask, says busy under the
  polarity of the counter: the masked value is zero if \<open>isIdle\<close> is true, and not zero
  if \<open>isIdle\<close> is false.  Otherwise the entry keeps its value.
\<close>

theorem increment_follows_polarity:
  assumes "i < length counters"
  shows "\<exists>before after sl sl'.
     sampleTicks env (int t) = Some (before, sl) \<and>
     sampleTicks env (int t + 1) = Some (after, sl') \<and>
     (if isIdle (counters ! i)
      then (after ! i = before ! i + 1) = (mmio env t i (index (counters ! i)) AND mask (counters ! i) = 0)
      else (after ! i = before ! i + 1) = (mmio env t i (index (counters ! i)) AND mask (counters ! i) \<noteq> 0)) \<and>
     (after ! i = before ! i + 1 \<or> after ! i = before ! i)"
proof -
  have s: "int t + 1 = int (Suc t)" by simp
  show ?thesis
    unfolding s sampleTicks_closed using assms
    by (simp del: upt_Suc add: busyTicks_Suc)
qed

theorem increment_follows_polarity_witness:
  "0 < length counters \<and> 8 < length counters \<and>
   mask (counters ! 0) = push_bit 31 1 \<and> \<not> isIdle (counters ! 0) \<and> isIdle (counters ! 8) \<and>
   (\<exists>before after sl sl'.
      sampleTicks busyEnv 0 = Some (before, sl) \<and> sampleTicks busyEnv 1 = Some (after, sl') \<and>
      after ! 0 = before ! 0 + 1) \<and>
   (\<exists>before after sl sl'.
      sampleTicks busyEnv 0 = Some (before, sl) \<and> sampleTicks busyEnv 1 = Some (after, sl') \<and>
      after ! 8 = before ! 8)"
proof -
  have l: "0 < length counters" "8 < length counters" by (simp_all add: length_counters)
  have c: "mask (counters ! 0) = push_bit 31 1" "\<not> isIdle (counters ! 0)" "isIdle (counters ! 8)"
    "mask (counters ! 8) = push_bit 0 1"
    by (simp_all add: counters_def)
  have m: "mmio busyEnv t i r = 0xFFFFFFFF" for t i r by (simp add: busyEnv_def)
  from increment_follows_polarity [OF l(1), of busyEnv 0]
  have a: "\<exists>before after sl sl'.
      sampleTicks busyEnv 0 = Some (before, sl) \<and> sampleTicks busyEnv 1 = Some (after, sl') \<and>
      after ! 0 = before ! 0 + 1"
    by (simp add: c m) blast
  from increment_follows_polarity [OF l(2), of busyEnv 0]
  have b: "\<exists>before after sl sl'.
      sampleTicks busyEnv 0 = Some (before, sl) \<and> sampleTicks busyEnv 1 = Some (after, sl') \<and>
      after ! 8 = before ! 8"
    by (simp add: c m) blast
  from l c a b show ?thesis by blast
qed

subsection \<open>C2: the percentage\<close>

text \<open>
  C2.  The percentage of a line is \<open>counts[a] * 100 / sampleCount\<close> in C++ integer
  division, with \<open>sampleCount = 100\<close>.  For a count \<open>c\<close> from 0 to \<open>sampleCount\<close> this
  is the floor of \<open>c * 100 / 100\<close>, lies between 0 and 100 and is \<open>c\<close> itself.  In every
  window the entry of counter \<open>i\<close> is the number of ticks at which its read said
  busy, its percentage is that number, and the frame consists of the lines computed from
  these percentages.
\<close>

theorem percentage_is_count:
  assumes "0 \<le> c" and "c \<le> sampleCount"
    and "mset idx = mset [0..<length counters]" and "i < length counters"
  shows "sampleCount = 100 \<and>
    cdiv (c * 100) sampleCount = c * 100 div 100 \<and>
    0 \<le> cdiv (c * 100) sampleCount \<and> cdiv (c * 100) sampleCount \<le> 100 \<and>
    cdiv (c * 100) sampleCount = c \<and>
    (\<exists>r. window env idx = Some r \<and>
       accumulator r ! i =
         int (length (filter (\<lambda>t. isIdle (counters ! i) \<longleftrightarrow>
                mmio env t i (index (counters ! i)) AND mask (counters ! i) = 0) [0..<100])) \<and>
       cdiv (accumulator r ! i * 100) sampleCount = accumulator r ! i \<and>
       lineOf (accumulator r) i =
         lineCells (name (counters ! i)) (accumulator r ! i) @ [newline] \<and>
       frame r = clearScreen # concat (map (lineOf (accumulator r)) (displayOrder r)))"
proof -
  have a: "cdiv (x * 100) sampleCount = x" if "0 \<le> x" for x
    using that by (simp add: cdiv_nonneg sampleCount_def)
  have v: "validOrder idx" using assms(3) by (simp only: validOrder_def)
  obtain r where r: "window env idx = Some r" "accumulator r = tally env"
    "frame r = clearScreen # concat (map (lineOf (accumulator r)) (displayOrder r))"
    using window_frame [OF v, of env] by blast
  have t: "accumulator r ! i = int (busyTicks env i 100)"
    using assms(4) by (simp add: r(2) sampleCount_def)
  then have nn: "0 \<le> accumulator r ! i" by simp
  have l: "lineOf (accumulator r) i = lineCells (name (counters ! i)) (accumulator r ! i) @ [newline]"
    by (simp only: lineOf_def a [OF nn])
  from assms(1,2) a [OF assms(1)] r(1,3) t a [OF nn] l show ?thesis
    by (simp add: sampleCount_def)
qed

theorem percentage_is_count_witness:
  "(0::int) \<le> 37 \<and> 37 \<le> sampleCount \<and> mset [0..<10] = mset [0..<length counters] \<and>
   0 < length counters \<and> cdiv (0 * 100) sampleCount = 0 \<and> cdiv (37 * 100) sampleCount = 37 \<and>
   cdiv (100 * 100) sampleCount = 100 \<and>
   (\<exists>r. window partEnv [0..<10] = Some r \<and> accumulator r ! 0 = 37 \<and>
      cdiv (accumulator r ! 0 * 100) sampleCount = 37 \<and>
      lineOf (accumulator r) 0 = lineCells ''CL'' 37 @ [newline])"
proof -
  have c: "(0::int) \<le> 37" "37 \<le> sampleCount" by (simp_all add: sampleCount_def)
  have m: "mset [0..<10] = mset [0..<length counters]" and i: "0 < length counters"
    by (simp_all add: length_counters)
  have e: "cdiv (0 * 100) sampleCount = 0" "cdiv (100 * 100) sampleCount = 100"
    by (simp_all add: cdiv_def sampleCount_def)
  have k: "counters ! 0 = \<lparr>name = ''CL'', index = 0x2284, mask = push_bit 31 1, isIdle = False\<rparr>"
    by (simp add: counters_def)
  have h: "(mmio partEnv t 0 (index (counters ! 0)) AND mask (counters ! 0) \<noteq> 0) = (t < 37)" for t
    by (simp add: partEnv_def k)
  from percentage_is_count [OF c m i, of partEnv]
  obtain r where r: "window partEnv [0..<10] = Some r"
    "accumulator r ! 0 =
       int (length (filter (\<lambda>t. isIdle (counters ! 0) \<longleftrightarrow>
              mmio partEnv t 0 (index (counters ! 0)) AND mask (counters ! 0) = 0) [0..<100]))"
    "cdiv (accumulator r ! 0 * 100) sampleCount = accumulator r ! 0"
    "lineOf (accumulator r) 0 = lineCells (name (counters ! 0)) (accumulator r ! 0) @ [newline]"
    and p: "cdiv (37 * 100) sampleCount = 37"
    by blast
  have "isIdle (counters ! 0) = False" by (simp add: k)
  with r(2) h have a: "accumulator r ! 0 = 37"
    by (simp add: length_filter_less)
  have n: "name (counters ! 0) = ''CL''" by (simp add: k)
  from r(1) r(3,4) [unfolded a n] a have
    "\<exists>r. window partEnv [0..<10] = Some r \<and> accumulator r ! 0 = 37 \<and>
      cdiv (accumulator r ! 0 * 100) sampleCount = 37 \<and>
      lineOf (accumulator r) 0 = lineCells ''CL'' 37 @ [newline]"
    by auto
  with c m i e p show ?thesis by (intro conjI)
qed

subsection \<open>C3: the display order is a stable sort by descending count\<close>

text \<open>
  C3.  Every window replaces the display order by the stable sort of the previous order
  under the comparison \<open>counts[a] > counts[b]\<close>, with the accumulator of the window as
  \<open>counts\<close>.  The sort permutes its input; along the result the counts never increase;
  the indices of any one count keep the order they had, and so do any two indices \<open>a\<close>,
  \<open>b\<close> of equal count.  For the counts 50, 50, 30 and the order 0, 1, 2 the result is
  0, 1, 2.
\<close>

theorem display_order_stable_descending:
  assumes "mset idx = mset [0..<length counters]" and "counts ! a = counts ! b"
  shows "(\<exists>r. window env idx = Some r \<and>
            displayOrder r = stable_sort (byCount (accumulator r)) idx) \<and>
     mset (stable_sort (byCount counts) xs) = mset xs \<and>
     sorted_wrt (\<lambda>x y. counts ! x \<ge> counts ! y) (stable_sort (byCount counts) xs) \<and>
     filter (\<lambda>x. counts ! x = k) (stable_sort (byCount counts) xs) =
       filter (\<lambda>x. counts ! x = k) xs \<and>
     filter (\<lambda>x. x = a \<or> x = b) (stable_sort (byCount counts) xs) =
       filter (\<lambda>x. x = a \<or> x = b) xs \<and>
     stable_sort (byCount [50, 50, 30]) [0, 1, 2] = [0, 1, 2]"
proof -
  have v: "validOrder idx" using assms(1) by (simp only: validOrder_def)
  note window_displayOrder [OF v, of env]
  moreover note mset_stable_sort [of counts xs]
  moreover note sorted_stable_sort [of counts xs]
  moreover note stable_sort_stable [of counts k xs]
  moreover note stable_sort_pair_order [OF assms(2), of xs]
  moreover note stable_sort_example
  ultimately show ?thesis by (intro conjI)
qed

theorem display_order_stable_descending_witness:
  "mset [0..<10] = mset [0..<length counters] \<and> [50, 50, 30 :: int] ! 0 = [50, 50, 30] ! 1 \<and>
   (\<exists>r. window idleEnv [0..<10] = Some r \<and>
      displayOrder r = stable_sort (byCount (accumulator r)) [0..<10]) \<and>
   filter (\<lambda>x. x = 0 \<or> x = 1) (stable_sort (byCount [50, 50, 30]) [1, 0, 2]) = [1, 0] \<and>
   sorted_wrt (\<lambda>x y. [50, 50, 30 :: int] ! x \<ge> [50, 50, 30] ! y) (stable_sort (byCount [50, 50, 30]) [1, 0, 2]) \<and>
   stable_sort (byCount [50, 50, 30]) [0, 1, 2] = [0, 1, 2] \<and>
   stable_sort (byCount [50, 50, 30]) [0, 1, 2] \<noteq> [1, 0, 2]"
proof -
  have m: "mset [0..<10] = mset [0..<length counters]" by (simp add: length_counters)
  have e: "[50, 50, 30 :: int] ! 0 = [50, 50, 30] ! 1" by simp
  from display_order_stable_descending [OF m e, of idleEnv "[1, 0, 2]" 50] m e
  show ?thesis by simp
qed

subsection \<open>C4: the bar\<close>

text \<open>
  C4.  For a percentage \<open>p\<close> from 0 to 100, \<open>printCounter\<close> writes the name and
  percentage fields and then the bar: \<open>p * 2 / 8\<close> times the full block \<open>bars[8]\<close>, one
  glyph \<open>bars[p * 2 % 8]\<close> of the ramp of 9 glyphs, whose entry 0 is the blank, and
  \<open>32 - (p * 2 / 8 + 1)\<close> spaces; the bar has 32 cells.  For \<open>p = 0\<close> it is the blank
  and 31 spaces, for \<open>p = 100\<close> 25 full blocks, the blank and 6 spaces.
\<close>

theorem printCounter_bar:
  assumes "0 \<le> p" and "p \<le> 100"
  shows "length bars = 9 \<and> bars ! 0 = '' '' \<and> bars ! 8 = [CHR 0xE2, CHR 0x96, CHR 0x88] \<and>
    (\<exists>bar. printCounter os nm p =
             Some (os @ [setw 10 nm, '' '', setw 3 (show_int p), ''% ''] @ bar) \<and>
       bar = replicate (nat (p * 2 div 8)) (bars ! 8) @ [bars ! nat (p * 2 mod 8)] @
             replicate (32 - (nat (p * 2 div 8) + 1)) '' '' \<and>
       length bar = 32) \<and>
    printCounter os nm 0 =
      Some (os @ [setw 10 nm, '' '', setw 3 (show_int 0), ''% ''] @ [bars ! 0] @ replicate 31 '' '') \<and>
    printCounter os nm 100 =
      Some (os @ [setw 10 nm, '' '', setw 3 (show_int 100), ''% ''] @
            replicate 25 (bars ! 8) @ [bars ! 0] @ replicate 6 '' '')"
proof -
  have b: "length bars = 9" "bars ! 0 = '' ''" "bars ! 8 = [CHR 0xE2, CHR 0x96, CHR 0x88]"
    by (simp_all add: bars_def)
  have g: "printCounter os nm p = Some (os @ [setw 10 nm, '' '', setw 3 (show_int p), ''% ''] @ barCells p)"
    using printCounter_closed [OF assms(1), of os nm] by (simp add: lineCells_def)
  have l: "length (barCells p) = 32"
    using assms by (rule length_barCells)
  have z: "printCounter os nm 0 =
      Some (os @ [setw 10 nm, '' '', setw 3 (show_int 0), ''% ''] @ [bars ! 0] @ replicate 31 '' '')"
    using printCounter_closed [of 0 os nm] by (simp add: lineCells_def barCells_def)
  have h: "printCounter os nm 100 =
      Some (os @ [setw 10 nm, '' '', setw 3 (show_int 100), ''% ''] @
            replicate 25 (bars ! 8) @ [bars ! 0] @ replicate 6 '' '')"
    using printCounter_closed [of 100 os nm] by (simp add: lineCells_def barCells_def)
  from g l have "\<exists>bar. printCounter os nm p =
             Some (os @ [setw 10 nm, '' '', setw 3 (show_int p), ''% ''] @ bar) \<and>
       bar = replicate (nat (p * 2 div 8)) (bars ! 8) @ [bars ! nat (p * 2 mod 8)] @
             replicate (32 - (nat (p * 2 div 8) + 1)) '' '' \<and>
       length bar = 32"
    unfolding barCells_def by blast
  with b z h show ?thesis by (intro conjI)
qed

theorem printCounter_bar_witness:
  "(0::int) \<le> 37 \<and> (37::int) \<le> 100 \<and>
   printCounter [] ''SDMA0'' 37 =
     Some ([''     SDMA0'', '' '', '' 37'', ''% ''] @
           replicate 9 [CHR 0xE2, CHR 0x96, CHR 0x88] @ [[CHR 0xE2, CHR 0x96, CHR 0x8E]] @
           replicate 22 '' '')"
proof -
  have a: "(0::int) \<le> 37" "(37::int) \<le> 100" by simp_all
  have s: "setw 10 ''SDMA0'' = ''     SDMA0''" "setw 3 (show_int 37) = '' 37''"
    by code_simp+
  from printCounter_bar [OF a, of "[]" "''SDMA0''"] a show ?thesis
    by (simp add: s bars_def)
qed

subsection \<open>C5: a late tick\<close>

text \<open>
  C5, as stated, does not hold: a negative sleep length does not always become an enormous
  argument.  A length of \<open>- 2 ^ 32\<close> (tick 0 seen \<open>2 ^ 32 + 10000\<close> microseconds after
  the start of the window) becomes the argument 0, and a length of \<open>9000 - 2 ^ 32\<close>
  becomes 9000.
\<close>

theorem late_sleep_not_always_huge:
  "sleepLength 0 4294977296 < 0 \<and> usleep_arg (sleepLength 0 4294977296) = 0 \<and>
   sleepLength 1 4294978296 < 0 \<and> usleep_arg (sleepLength 1 4294978296) = 9000"
  by (simp add: sleepLength_def sampleCount_interval usleep_arg_def)

text \<open>
  C5, amended.  When the sleep length \<open>d\<close> of tick \<open>t\<close> is negative, nothing clamps it:
  the window still runs all of its 100 ticks, and the argument of \<open>usleep\<close> at tick \<open>t\<close>
  is \<open>d mod 2 ^ 32\<close>.  For \<open>- 2 ^ 32 < d\<close> this is \<open>2 ^ 32 + d\<close> and not zero, and for
  \<open>- 2 ^ 31 \<le> d\<close> it is at least \<open>2 ^ 31\<close>.
\<close>

theorem late_sleep_wraps_modulo:
  assumes "mset idx = mset [0..<length counters]" and "t < 100"
    and "d = sleepLength (int t) (elapsedMicros (startTime env) (currentTime env t))"
    and "d < 0"
  shows "\<exists>r. window env idx = Some r \<and> length (sleeps r) = 100 \<and>
     uint (sleeps r ! t) = d mod 2 ^ 32 \<and>
     (- (2 ^ 32) < d \<longrightarrow> sleeps r ! t \<noteq> 0 \<and> uint (sleeps r ! t) = 2 ^ 32 + d) \<and>
     (- (2 ^ 31) \<le> d \<longrightarrow> 2 ^ 31 \<le> uint (sleeps r ! t))"
proof -
  have v: "validOrder idx" using assms(1) by (simp only: validOrder_def)
  obtain r where r: "window env idx = Some r" "sleeps r = map (sleepAt env) [0..<nat sampleCount]"
    using window_sleeps [OF v, of env] by blast
  have s: "sleeps r ! t = usleep_arg d" and l: "length (sleeps r) = 100"
    using assms(2,3) by (simp_all add: r(2) sampleCount_def)
  have u: "uint (sleeps r ! t) = d mod 2 ^ 32"
    by (simp add: s uint_usleep_arg)
  have w: "uint (sleeps r ! t) = 2 ^ 32 + d" if "- (2 ^ 32) < d"
  proof -
    have "d mod 2 ^ 32 = (d + 2 ^ 32) mod 2 ^ 32" by simp
    also have "\<dots> = d + 2 ^ 32" using that assms(4) by (intro mod_pos_pos_trivial) simp_all
    finally show ?thesis using u by simp
  qed
  have nz: "sleeps r ! t \<noteq> 0" if "- (2 ^ 32) < d"
  proof
    assume "sleeps r ! t = 0"
    then have "uint (sleeps r ! t) = 0" by simp
    with w [OF that] that show False by simp
  qed
  have h: "2 ^ 31 \<le> uint (sleeps r ! t)" if "- (2 ^ 31) \<le> d"
  proof -
    from that have "- (2 ^ 32) < d" by simp
    from w [OF this] that show ?thesis by simp
  qed
  from r(1) l u w nz h show ?thesis by blast
qed

theorem late_sleep_wraps_modulo_witness:
  "mset [0..<10] = mset [0..<length counters] \<and> (1::nat) < 100 \<and>
   sleepLength 1 (elapsedMicros (startTime lateEnv) (currentTime lateEnv 1)) = - 5 \<and>
   (\<exists>r. window lateEnv [0..<10] = Some r \<and> length (sleeps r) = 100 \<and>
      sleeps r ! 1 \<noteq> 0 \<and> uint (sleeps r ! 1) = 4294967291)"
proof -
  have m: "mset [0..<10] = mset [0..<length counters]" by (simp add: length_counters)
  have i: "(1::nat) < 100" by simp
  have d: "- 5 = sleepLength (int 1) (elapsedMicros (startTime lateEnv) (currentTime lateEnv 1))"
    by (simp add: lateEnv_def elapsedMicros_def cdiv_def sleepLength_def sampleCount_interval)
  have n: "(- 5 :: int) < 0" by simp
  from late_sleep_wraps_modulo [OF m i d n]
  obtain r where r: "window lateEnv [0..<10] = Some r" "length (sleeps r) = 100"
    "- (2 ^ 32) < (- 5 :: int) \<longrightarrow> sleeps r ! 1 \<noteq> 0 \<and> uint (sleeps r ! 1) = 2 ^ 32 + - 5"
    by blast
  from r(3) have "sleeps r ! 1 \<noteq> 0" "uint (sleeps r ! 1) = 4294967291" by simp_all
  with r(1,2) have "\<exists>r. window lateEnv [0..<10] = Some r \<and> length (sleeps r) = 100 \<and>
      sleeps r ! 1 \<noteq> 0 \<and> uint (sleeps r ! 1) = 4294967291" by blast
  moreover have "sleepLength 1 (elapsedMicros (startTime lateEnv) (currentTime lateEnv 1)) = - 5"
    using d by simp
  ultimately show ?thesis using m i by blast
qed

subsection \<open>C6: the sleep of a tick is anchored at the start of the window\<close>

text \<open>
  C6.  \<open>sampleCount\<close> is 100 and \<open>interval\<close> is \<open>1000000 / 100\<close>.  In every window,
  for every tick \<open>i\<close> from 0 to 99, the argument of \<open>usleep\<close> after the reads of the
  tick is \<open>(i + 1) * interval\<close> minus the microseconds elapsed since the one time point
  taken before tick 0, converted to \<open>useconds_t\<close>.  Nothing else enters: not the
  time of another tick and not an earlier sleep.  When the tick is not late, the request
  is exactly the remainder up to the grid point \<open>(i + 1) * interval\<close> after the start of
  the window.  The clock is steady: \<open>currentTime\<close> is not before \<open>startTime\<close>.
\<close>

theorem sleep_anchored_at_window_start:
  assumes "mset idx = mset [0..<length counters]" and "i < 100"
    and "startTime env \<le> currentTime env i"
  shows "sampleCount = 100 \<and> interval = 1000000 div 100 \<and>
    (\<exists>r. window env idx = Some r \<and> length (sleeps r) = 100 \<and>
       sleeps r ! i = usleep_arg (sleepLength (int i) (elapsedMicros (startTime env) (currentTime env i))) \<and>
       sleepLength (int i) (elapsedMicros (startTime env) (currentTime env i)) =
         (int i + 1) * interval - (currentTime env i - startTime env) div 1000 \<and>
       (0 \<le> sleepLength (int i) (elapsedMicros (startTime env) (currentTime env i)) \<longrightarrow>
          (currentTime env i - startTime env) div 1000 + uint (sleeps r ! i) = (int i + 1) * interval))"
proof -
  have v: "validOrder idx" using assms(1) by (simp only: validOrder_def)
  obtain r where r: "window env idx = Some r" "sleeps r = map (sleepAt env) [0..<nat sampleCount]"
    using window_sleeps [OF v, of env] by blast
  let ?e = "(currentTime env i - startTime env) div 1000"
  let ?d = "sleepLength (int i) (elapsedMicros (startTime env) (currentTime env i))"
  have e: "elapsedMicros (startTime env) (currentTime env i) = ?e"
    using assms(3) by (simp add: elapsedMicros_def cdiv_nonneg)
  have e0: "0 \<le> ?e" using assms(3) by simp
  have d: "?d = (int i + 1) * interval - ?e"
    by (simp add: sleepLength_def e)
  have s: "sleeps r ! i = usleep_arg ?d" and l: "length (sleeps r) = 100"
    using assms(2) by (simp_all add: r(2) sampleCount_def)
  have t: "?e + uint (sleeps r ! i) = (int i + 1) * interval" if nn: "0 \<le> ?d"
  proof -
    have "(int i + 1) * interval \<le> 1000000"
      using assms(2) by (simp add: sampleCount_interval)
    with e0 d have "?d < 2 ^ 32" by simp
    with nn have "uint (sleeps r ! i) = ?d"
      by (simp add: s uint_usleep_arg)
    with d show ?thesis by simp
  qed
  from r(1) l s d t show ?thesis
    by (simp add: sampleCount_interval)
qed

theorem sleep_anchored_at_window_start_witness:
  "mset [0..<10] = mset [0..<length counters] \<and> (1::nat) < 100 \<and>
   startTime lateEnv \<le> currentTime lateEnv 1 \<and>
   (\<exists>r. window lateEnv [0..<10] = Some r \<and> length (sleeps r) = 100 \<and>
      sleeps r ! 1 = usleep_arg (- 5)) \<and>
   startTime idleEnv \<le> currentTime idleEnv 3 \<and>
   0 \<le> sleepLength 3 (elapsedMicros (startTime idleEnv) (currentTime idleEnv 3)) \<and>
   (\<exists>r. window idleEnv [0..<10] = Some r \<and> uint (sleeps r ! 3) = 40000)"
proof -
  have m: "mset [0..<10] = mset [0..<length counters]" by (simp add: length_counters)
  have i: "(1::nat) < 100" "(3::nat) < 100" by simp_all
  have c: "startTime lateEnv \<le> currentTime lateEnv 1" "startTime idleEnv \<le> currentTime idleEnv 3"
    by (simp_all add: lateEnv_def idleEnv_def)
  have d1: "sleepLength (int 1) (elapsedMicros (startTime lateEnv) (currentTime lateEnv 1)) = - 5"
    by (simp add: lateEnv_def elapsedMicros_def cdiv_def sleepLength_def sampleCount_interval)
  have d3: "sleepLength (int 3) (elapsedMicros (startTime idleEnv) (currentTime idleEnv 3)) = 40000"
    and t3: "currentTime idleEnv 3 - startTime idleEnv = 0"
    by (simp_all add: idleEnv_def elapsedMicros_def cdiv_def sleepLength_def sampleCount_interval)
  from sleep_anchored_at_window_start [OF m i(1) c(1)]
  obtain r1 where r1: "window lateEnv [0..<10] = Some r1" "length (sleeps r1) = 100"
    "sleeps r1 ! 1 = usleep_arg (sleepLength (int 1) (elapsedMicros (startTime lateEnv) (currentTime lateEnv 1)))"
    by blast
  from sleep_anchored_at_window_start [OF m i(2) c(2)]
  obtain r3 where r3: "window idleEnv [0..<10] = Some r3"
    "0 \<le> sleepLength (int 3) (elapsedMicros (startTime idleEnv) (currentTime idleEnv 3)) \<longrightarrow>
       (currentTime idleEnv 3 - startTime idleEnv) div 1000 + uint (sleeps r3 ! 3) = (int 3 + 1) * interval"
    by blast
  from r3(2) have u: "uint (sleeps r3 ! 3) = 40000"
    unfolding d3 t3 by (simp add: sampleCount_interval)
  have a: "\<exists>r. window lateEnv [0..<10] = Some r \<and> length (sleeps r) = 100 \<and> sleeps r ! 1 = usleep_arg (- 5)"
    using r1 unfolding d1 by blast
  have b: "\<exists>r. window idleEnv [0..<10] = Some r \<and> uint (sleeps r ! 3) = 40000"
    using r3(1) u by blast
  have n: "0 \<le> sleepLength 3 (elapsedMicros (startTime idleEnv) (currentTime idleEnv 3))"
    using d3 by simp
  from m i(1) c a b n show ?thesis by blast
qed

subsection \<open>C7: the accumulator is bounded by the number of ticks\<close>

text \<open>
  C7.  In every window the accumulator starts as all zeros, a tick raises an entry by at most
  one and never lowers it, so after tick \<open>t\<close> (counted from 0) every entry lies between
  0 and \<open>t + 1\<close>, and after the whole window between 0 and \<open>sampleCount = 100\<close>.
\<close>

theorem accumulator_bounds:
  assumes "i < length counters" and "mset idx = mset [0..<length counters]"
  shows "sampleTicks env 0 = Some (replicate (length counters) 0, []) \<and>
    (\<exists>before after sl sl'.
       sampleTicks env (int t) = Some (before, sl) \<and>
       sampleTicks env (int t + 1) = Some (after, sl') \<and>
       length after = length counters \<and>
       before ! i \<le> after ! i \<and> after ! i \<le> before ! i + 1 \<and>
       0 \<le> after ! i \<and> after ! i \<le> int t + 1) \<and>
    (\<exists>r. window env idx = Some r \<and> length (accumulator r) = length counters \<and>
       0 \<le> accumulator r ! i \<and> accumulator r ! i \<le> sampleCount \<and> sampleCount = 100)"
proof -
  have z: "sampleTicks env 0 = Some (replicate (length counters) 0, [])"
    by (simp add: sampleTicks_def for_loop.simps)
  have s: "int t + 1 = int (Suc t)" by simp
  have le: "int (busyTicks env i (Suc t)) \<le> int t + 1"
    using busyTicks_le [where env = env and i = i and n = "Suc t"] by linarith
  have step: "\<exists>before after sl sl'.
       sampleTicks env (int t) = Some (before, sl) \<and>
       sampleTicks env (int t + 1) = Some (after, sl') \<and>
       length after = length counters \<and>
       before ! i \<le> after ! i \<and> after ! i \<le> before ! i + 1 \<and>
       0 \<le> after ! i \<and> after ! i \<le> int t + 1"
    unfolding s sampleTicks_closed using assms(1) le
    by (simp del: upt_Suc add: busyTicks_Suc)
  have v: "validOrder idx" using assms(2) by (simp only: validOrder_def)
  have "int (busyTicks env i (nat sampleCount)) \<le> sampleCount"
    using busyTicks_le [where env = env and i = i and n = "nat sampleCount"] by (simp add: sampleCount_def)
  then have w: "\<exists>r. window env idx = Some r \<and> length (accumulator r) = length counters \<and>
       0 \<le> accumulator r ! i \<and> accumulator r ! i \<le> sampleCount \<and> sampleCount = 100"
    using window_accumulator [OF v, of env] assms(1) by (auto simp: sampleCount_def)
  from z step w show ?thesis by blast
qed

theorem accumulator_bounds_witness:
  "3 < length counters \<and> mset [0..<10] = mset [0..<length counters] \<and>
   sampleTicks busyEnv 0 = Some (replicate (length counters) 0, []) \<and>
   (\<exists>after sl'. sampleTicks busyEnv 100 = Some (after, sl') \<and> 0 \<le> after ! 3 \<and> after ! 3 \<le> 100) \<and>
   (\<exists>r. window busyEnv [0..<10] = Some r \<and> 0 \<le> accumulator r ! 3 \<and> accumulator r ! 3 \<le> 100)"
proof -
  have l: "3 < length counters" and m: "mset [0..<10] = mset [0..<length counters]"
    by (simp_all add: length_counters)
  from accumulator_bounds [OF l m, of busyEnv 99] l m show ?thesis
    by (simp add: sampleCount_def) blast
qed

subsection \<open>C8: the failures of the start-up\<close>

text \<open>
  C8.  Each of the five failures of the device locator ends the process with exit status 1
  after exactly one line on standard error: the initialisation of PCI fails (\<open>e1\<close>); no
  device matches (\<open>e2\<close>); the probe fails (\<open>e3\<close>); the vendor of the probed device is
  not \<open>0x1002\<close> (\<open>e4\<close>); the mapping of the registers fails (\<open>e5\<close>).  The five lines
  are different from each other, and each is a single line.  When nothing fails (\<open>e0\<close>)
  the process never returns.  Whatever the environment \<open>e\<close>, the process either never
  returns or exits with status 1 after one of the five lines; it never exits with
  status 0.
\<close>

theorem locator_failures_exit_1:
  assumes "pci_system_init (pci e1) \<noteq> 0"
    and "pci_system_init (pci e2) = 0" "pci_device_next (pci e2) gpuMatch = None"
    and "pci_system_init (pci e3) = 0" "pci_device_next (pci e3) gpuMatch = Some d3"
      "fst (pci_device_probe (pci e3) d3) \<noteq> 0"
    and "pci_system_init (pci e4) = 0" "pci_device_next (pci e4) gpuMatch = Some d4"
      "pci_device_probe (pci e4) d4 = (0, d4')" "vendor_id d4' \<noteq> 0x1002"
    and "pci_system_init (pci e5) = 0" "pci_device_next (pci e5) gpuMatch = Some d5"
      "pci_device_probe (pci e5) d5 = (0, d5')" "vendor_id d5' = 0x1002"
      "pci_device_map_range (pci e5) d5' (region5_base_addr d5') 0x40000 \<noteq> 0"
    and "pci_system_init (pci e0) = 0" "pci_device_next (pci e0) gpuMatch = Some d0"
      "pci_device_probe (pci e0) d0 = (0, d0')" "vendor_id d0' = 0x1002"
      "pci_device_map_range (pci e0) d0' (region5_base_addr d0') 0x40000 = 0"
  shows "main e1 = Some (Exited 1 [''could not initialize PCI'' @ [CHR 0x0A]]) \<and>
    main e2 = Some (Exited 1 [''could not find an AMD TONGA GPU'' @ [CHR 0x0A]]) \<and>
    main e3 = Some (Exited 1 [''could not probe GPU'' @ [CHR 0x0A]]) \<and>
    main e4 = Some (Exited 1 [''Graphics card is not identified'' @ [CHR 0x0A]]) \<and>
    main e5 = Some (Exited 1 [''mmio mem map failed (try to run as root)'' @ [CHR 0x0A]]) \<and>
    main e0 = None \<and>
    distinct [''could not initialize PCI'' @ [CHR 0x0A],
              ''could not find an AMD TONGA GPU'' @ [CHR 0x0A],
              ''could not probe GPU'' @ [CHR 0x0A],
              ''Graphics card is not identified'' @ [CHR 0x0A],
              ''mmio mem map failed (try to run as root)'' @ [CHR 0x0A]] \<and>
    list_all (\<lambda>m. filter (\<lambda>c. c = CHR 0x0A) m = [CHR 0x0A] \<and> last m = CHR 0x0A)
             [''could not initialize PCI'' @ [CHR 0x0A],
              ''could not find an AMD TONGA GPU'' @ [CHR 0x0A],
              ''could not probe GPU'' @ [CHR 0x0A],
              ''Graphics card is not identified'' @ [CHR 0x0A],
              ''mmio mem map failed (try to run as root)'' @ [CHR 0x0A]] \<and>
    main e \<in> insert None ((\<lambda>m. Some (Exited 1 [m])) `
      set [''could not initialize PCI'' @ [CHR 0x0A],
           ''could not find an AMD TONGA GPU'' @ [CHR 0x0A],
           ''could not probe GPU'' @ [CHR 0x0A],
           ''Graphics card is not identified'' @ [CHR 0x0A],
           ''mmio mem map failed (try to run as root)'' @ [CHR 0x0A]]) \<and>
    main e \<noteq> Some (Exited 0 err)"
proof -
  have m1: "main e1 = Some (Exited 1 [''could not initialize PCI'' @ [CHR 0x0A]])"
    using assms(1) by (simp add: main_def getPCIDevice_def)
  have m2: "main e2 = Some (Exited 1 [''could not find an AMD TONGA GPU'' @ [CHR 0x0A]])"
    using assms(2,3) by (simp add: main_def getPCIDevice_def)
  have m3: "main e3 = Some (Exited 1 [''could not probe GPU'' @ [CHR 0x0A]])"
    using assms(4-6) by (cases "pci_device_probe (pci e3) d3") (simp add: main_def getPCIDevice_def)
  have m4: "main e4 = Some (Exited 1 [''Graphics card is not identified'' @ [CHR 0x0A]])"
    using assms(7-10) by (simp add: main_def getPCIDevice_def)
  have m5: "main e5 = Some (Exited 1 [''mmio mem map failed (try to run as root)'' @ [CHR 0x0A]])"
    using assms(11-15) by (simp add: main_def getPCIDevice_def mapSize_def)
  have m0: "main e0 = None"
    using assms(16-20) by (simp add: main_def getPCIDevice_def mapSize_def mainLoop_initial)
  have d: "distinct [''could not initialize PCI'' @ [CHR 0x0A],
              ''could not find an AMD TONGA GPU'' @ [CHR 0x0A],
              ''could not probe GPU'' @ [CHR 0x0A],
              ''Graphics card is not identified'' @ [CHR 0x0A],
              ''mmio mem map failed (try to run as root)'' @ [CHR 0x0A]]"
    by simp
  have l: "list_all (\<lambda>m. filter (\<lambda>c. c = CHR 0x0A) m = [CHR 0x0A] \<and> last m = CHR 0x0A)
             [''could not initialize PCI'' @ [CHR 0x0A],
              ''could not find an AMD TONGA GPU'' @ [CHR 0x0A],
              ''could not probe GPU'' @ [CHR 0x0A],
              ''Graphics card is not identified'' @ [CHR 0x0A],
              ''mmio mem map failed (try to run as root)'' @ [CHR 0x0A]]"
    by simp
  from m1 m2 m3 m4 m5 m0 d l main_cases [of e] main_not_0 [of e err] show ?thesis
    by (intro conjI)
qed

theorem locator_failures_exit_1_witness:
  "main envInitFails = Some (Exited 1 [''could not initialize PCI'' @ [CHR 0x0A]]) \<and>
   main envNoDevice = Some (Exited 1 [''could not find an AMD TONGA GPU'' @ [CHR 0x0A]]) \<and>
   main envProbeFails = Some (Exited 1 [''could not probe GPU'' @ [CHR 0x0A]]) \<and>
   main envOtherVendor = Some (Exited 1 [''Graphics card is not identified'' @ [CHR 0x0A]]) \<and>
   main envMapFails = Some (Exited 1 [''mmio mem map failed (try to run as root)'' @ [CHR 0x0A]]) \<and>
   main envOk = None"
proof -
  have a1: "pci_system_init (pci envInitFails) \<noteq> 0"
    by (simp add: envInitFails_def)
  have a2: "pci_system_init (pci envNoDevice) = 0" "pci_device_next (pci envNoDevice) gpuMatch = None"
    by (simp_all add: envNoDevice_def pciOk_def)
  have a3: "pci_system_init (pci envProbeFails) = 0"
    "pci_device_next (pci envProbeFails) gpuMatch = Some tonga"
    "fst (pci_device_probe (pci envProbeFails) tonga) \<noteq> 0"
    by (simp_all add: envProbeFails_def pciOk_def)
  have a4: "pci_system_init (pci envOtherVendor) = 0"
    "pci_device_next (pci envOtherVendor) gpuMatch = Some tonga"
    "pci_device_probe (pci envOtherVendor) tonga = (0, tonga\<lparr>vendor_id := 0x10de\<rparr>)"
    "vendor_id (tonga\<lparr>vendor_id := 0x10de\<rparr>) \<noteq> 0x1002"
    by (simp_all add: envOtherVendor_def pciOk_def)
  have a5: "pci_system_init (pci envMapFails) = 0"
    "pci_device_next (pci envMapFails) gpuMatch = Some tonga"
    "pci_device_probe (pci envMapFails) tonga = (0, tonga)"
    "vendor_id tonga = 0x1002"
    "pci_device_map_range (pci envMapFails) tonga (region5_base_addr tonga) 0x40000 \<noteq> 0"
    by (simp_all add: envMapFails_def pciOk_def tonga_def)
  have a0: "pci_system_init (pci envOk) = 0"
    "pci_device_next (pci envOk) gpuMatch = Some tonga"
    "pci_device_probe (pci envOk) tonga = (0, tonga)"
    "vendor_id tonga = 0x1002"
    "pci_device_map_range (pci envOk) tonga (region5_base_addr tonga) 0x40000 = 0"
    by (simp_all add: envOk_def pciOk_def tonga_def)
  from locator_failures_exit_1 [OF a1 a2 a3 a4 a5 a0] show ?thesis
    by blast
qed

subsection \<open>C9: the display order stays a permutation\<close>

text \<open>
  C9.  There are 10 counters and the display order starts as 0, 1, ..., 9.  After any
  number \<open>n\<close> of windows the program has not met undefined behaviour, the order it
  carries is a permutation of 0, ..., 9 and is the state of the main loop at its \<open>n\<close>-th
  pass.  The frame of every window \<open>w < n\<close> is the clear-screen sequence followed by one
  line for each index of a permutation of 0, ..., 9, and it holds exactly 10 line breaks.
\<close>

theorem display_order_permutation:
  assumes "w < n"
  shows "length counters = 10 \<and> initialIndices = [0..<10] \<and>
    (\<exists>idx frames. runWindows envs n = Some (idx, frames) \<and>
       mset idx = mset [0..<10] \<and> length frames = n \<and>
       mainLoop envs 0 initialIndices = mainLoop envs n idx \<and>
       (\<exists>ord counts. mset ord = mset [0..<10] \<and>
          frames ! w = clearScreen # concat (map (lineOf counts) ord)) \<and>
       length (filter (\<lambda>c. c = CHR 0x0A) (concat (frames ! w))) = 10)"
proof -
  let ?f = "\<lambda>w. clearScreen # concat (map (lineOf (tally (envs w))) (orderAfter envs (Suc w)))"
  have run: "runWindows envs n = Some (orderAfter envs n, map ?f [0..<n])"
    by (rule runWindows_closed)
  have p: "mset (orderAfter envs k) = mset [0..<10]" for k
    using validOrder_orderAfter [of envs k] by (simp only: validOrder_def length_counters)
  have fw: "map ?f [0..<n] ! w = ?f w" using assms by simp
  have ok: "\<forall>a \<in> set (orderAfter envs (Suc w)). a < length counters \<and> 0 \<le> tally (envs w) ! a"
    using validOrder_props(2) [OF validOrder_orderAfter [of envs "Suc w"]] by simp
  have "length (filter (\<lambda>c. c = CHR 0x0A) (concat (?f w))) = length (orderAfter envs (Suc w))"
    by (rule frame_newlines [OF ok])
  also have "\<dots> = 10"
    using validOrder_props(1) [OF validOrder_orderAfter [of envs "Suc w"]] by (simp add: length_counters)
  finally have nl: "length (filter (\<lambda>c. c = CHR 0x0A) (concat (map ?f [0..<n] ! w))) = 10"
    by (simp only: fw)
  have i: "initialIndices = [0..<10]" by (simp add: initialIndices_eq length_counters)
  have ml: "mainLoop envs 0 initialIndices = mainLoop envs n (orderAfter envs n)"
    by (rule mainLoop_unfold)
  have "\<exists>idx frames. runWindows envs n = Some (idx, frames) \<and>
       mset idx = mset [0..<10] \<and> length frames = n \<and>
       mainLoop envs 0 initialIndices = mainLoop envs n idx \<and>
       (\<exists>ord counts. mset ord = mset [0..<10] \<and>
          frames ! w = clearScreen # concat (map (lineOf counts) ord)) \<and>
       length (filter (\<lambda>c. c = CHR 0x0A) (concat (frames ! w))) = 10"
  proof (intro exI conjI)
    show "runWindows envs n = Some (orderAfter envs n, map ?f [0..<n])" by (rule run)
    show "mset (orderAfter envs n) = mset [0..<10]" by (rule p)
    show "length (map ?f [0..<n]) = n" by simp
    show "mainLoop envs 0 initialIndices = mainLoop envs n (orderAfter envs n)" by (rule ml)
    show "mset (orderAfter envs (Suc w)) = mset [0..<10]" by (rule p)
    show "map ?f [0..<n] ! w = ?f w" by (rule fw)
    show "length (filter (\<lambda>c. c = CHR 0x0A) (concat (map ?f [0..<n] ! w))) = 10" by (rule nl)
  qed
  with i length_counters show ?thesis by (intro conjI)
qed

theorem display_order_permutation_witness:
  "(0::nat) < 1 \<and>
   (\<exists>idx frames. runWindows (\<lambda>w. idleEnv) 1 = Some (idx, frames) \<and>
      mset idx = mset [0..<10] \<and> length frames = 1 \<and>
      length (filter (\<lambda>c. c = CHR 0x0A) (concat (frames ! 0))) = 10)"
proof -
  have l: "(0::nat) < 1" by simp
  from display_order_permutation [OF l, of "\<lambda>w. idleEnv"] l show ?thesis by blast
qed

subsection \<open>C10: register reads stay inside the mapping\<close>

text \<open>
  C10.  Each of the 10 counter descriptors has a register index, at most \<open>0x360d\<close>, that
  is strictly below \<open>0x10000\<close>, the number of 32-bit words in the mapped \<open>0x40000\<close>
  bytes.  The unchecked read of \<open>readReg\<close> at such an index is inside the mapping, and
  the sampling loop, whose reads are all of this kind, never leaves it: any number of
  ticks runs without undefined behaviour.
\<close>

theorem counter_reads_within_mapping:
  assumes "c \<in> set counters"
  shows "length counters = 10 \<and> mapSize div 4 = 0x10000 \<and>
     unat (index c) \<le> 0x360d \<and> unat (index c) < mapSize div 4 \<and>
     readReg mmioAddress (index c) = Some (mmioAddress (index c)) \<and>
     sampleTicks env (int n) \<noteq> None"
  using counters_index_bound [OF assms] readReg_counters [OF assms]
  by (simp add: length_counters mapSize_def sampleTicks_closed)

theorem counter_reads_within_mapping_witness:
  "counters ! 9 \<in> set counters \<and> unat (index (counters ! 9)) = 0x360d \<and>
   unat (index (counters ! 9)) < mapSize div 4 \<and>
   readReg (\<lambda>r. 7) (index (counters ! 9)) = Some 7 \<and> sampleTicks idleEnv 100 \<noteq> None"
proof -
  have m: "counters ! 9 \<in> set counters" by (simp add: counters_def)
  have v: "unat (index (counters ! 9)) = 0x360d" by (simp add: counters_def)
  from counter_reads_within_mapping [OF m, of "\<lambda>r. 7" idleEnv 100] m v show ?thesis by simp
qed

end
